theory Spec2Isabelle
  imports Main
begin

section \<open>JSON values and \<open>JSON.stringify\<close>\<close>

text \<open>
  The transport serialises every payload with \<open>JSON.stringify\<close> (one argument, so no
  indentation). A JSON value is modelled as a datatype; an object is the list of its
  members in property enumeration order. Numbers are the integer-valued ones, printed
  in decimal (fractions and exponents, which need floating point, are left out).
  Strings are byte strings (UTF-8), so a character beyond ASCII is several \<open>char\<close>s,
  each of which \<open>JSON.stringify\<close> copies unchanged.
\<close>

datatype json =
    JNull
  | JBool bool
  | JNum int
  | JStr string
  | JArr "json list"
  | JObj "(string \<times> json) list"

definition dquote :: char where
  "dquote = CHR 0x22"

definition backslash :: char where
  "backslash = CHR 0x5C"

definition newline :: char where
  "newline = CHR 0x0A"

definition hex_digit :: "nat \<Rightarrow> char" where
  "hex_digit n = ''0123456789abcdef'' ! (n mod 16)"

definition dec_digit :: "nat \<Rightarrow> char" where
  "dec_digit n = ''0123456789'' ! (n mod 10)"

function show_nat :: "nat \<Rightarrow> string" where
  "show_nat n = (if n < 10 then [dec_digit n] else show_nat (n div 10) @ [dec_digit n])"
  by pat_completeness auto
termination
  by (relation "measure (\<lambda>n. n)") auto

declare show_nat.simps [simp del]

definition show_int :: "int \<Rightarrow> string" where
  "show_int i = (if i < 0 then ''-'' @ show_nat (nat (- i)) else show_nat (nat i))"

text \<open>
  \<open>QuoteJSONString\<close>: the quote and the backslash are escaped, the control characters
  below 0x20 are written as \<open>\b \t \n \f \r\<close> or as \<open>\u00XX\<close>, every other
  character is copied.
\<close>

definition escape_char :: "char \<Rightarrow> string" where
  "escape_char c =
     (if c = dquote then [backslash, dquote]
      else if c = backslash then [backslash, backslash]
      else if c = CHR 0x08 then [backslash, CHR ''b'']
      else if c = CHR 0x09 then [backslash, CHR ''t'']
      else if c = CHR 0x0A then [backslash, CHR ''n'']
      else if c = CHR 0x0C then [backslash, CHR ''f'']
      else if c = CHR 0x0D then [backslash, CHR ''r'']
      else if (of_char c :: nat) < 0x20
        then [backslash, CHR ''u'', CHR ''0'', CHR ''0'',
              hex_digit (of_char c div 16), hex_digit (of_char c)]
      else [c])"

definition quote :: "string \<Rightarrow> string" where
  "quote s = [dquote] @ concat (map escape_char s) @ [dquote]"

fun join_comma :: "string list \<Rightarrow> string" where
  "join_comma [] = []"
| "join_comma [x] = x"
| "join_comma (x # y # ys) = x @ '','' @ join_comma (y # ys)"

fun stringify :: "json \<Rightarrow> string" where
  "stringify JNull = ''null''"
| "stringify (JBool b) = (if b then ''true'' else ''false'')"
| "stringify (JNum n) = show_int n"
| "stringify (JStr s) = quote s"
| "stringify (JArr js) = ''['' @ join_comma (map stringify js) @ '']''"
| "stringify (JObj kvs) =
     ''{'' @ join_comma (map (\<lambda>kv. quote (fst kv) @ '':'' @ stringify (snd kv)) kvs) @ ''}''"

section \<open>The push sink: the HTTP response of the event stream\<close>

text \<open>
  A value that JavaScript code throws: an \<open>Error\<close> object (with its message), another
  value that has properties (a string, a number, an object that is no \<open>Error\<close>), or
  \<open>null\<close> or \<open>undefined\<close>, on which reading a property fails.
  \<open>error instanceof Error\<close> holds for the first kind only.
\<close>

datatype thrown = JsError string | JsValue string | JsNullish

fun instanceof_Error :: "thrown \<Rightarrow> bool" where
  "instanceof_Error (JsError m) = True"
| "instanceof_Error (JsValue v) = False"
| "instanceof_Error JsNullish = False"

text \<open>
  The response object of the stream, as far as the transport uses it: the headers it
  sets, the chunks passed to \<open>write\<close> so far, in order, and whether \<open>end\<close> was called.
  Whether a call to \<open>write\<close> or \<open>end\<close> throws is decided outside the program; the
  field \<open>faults\<close> is that decision for the calls to come, one entry per call
  (\<open>Some e\<close>: the call throws \<open>e\<close> and writes nothing); when it is used up every
  call succeeds.
\<close>

record sse_response =
  headers :: "(string \<times> string) list"
  written :: "string list"
  ended :: bool
  faults :: "thrown option list"

definition setHeader :: "string \<Rightarrow> string \<Rightarrow> sse_response \<Rightarrow> sse_response" where
  "setHeader name v r = r\<lparr>headers := (name, v) # filter (\<lambda>h. fst h \<noteq> name) (headers r)\<rparr>"

definition response_write :: "string \<Rightarrow> sse_response \<Rightarrow> thrown option \<times> sse_response" where
  "response_write chunk r =
     (case faults r of
        [] \<Rightarrow> (None, r\<lparr>written := written r @ [chunk]\<rparr>)
      | None # fs \<Rightarrow> (None, r\<lparr>written := written r @ [chunk], faults := fs\<rparr>)
      | Some e # fs \<Rightarrow> (Some e, r\<lparr>faults := fs\<rparr>))"

definition response_end :: "sse_response \<Rightarrow> thrown option \<times> sse_response" where
  "response_end r =
     (case faults r of
        [] \<Rightarrow> (None, r\<lparr>ended := True\<rparr>)
      | None # fs \<Rightarrow> (None, r\<lparr>ended := True, faults := fs\<rparr>)
      | Some e # fs \<Rightarrow> (Some e, r\<lparr>faults := fs\<rparr>))"

section \<open>The transport (\<open>src/server/sse.ts\<close>)\<close>

text \<open>
  The three callback fields are set by the owner of the transport. A callback is
  modelled by what the transport can see of it: that it was called (an \<open>event\<close> in the
  trace an operation returns) and whether it returned or threw. The \<open>onclose\<close> callback
  that the router installs removes the session from the session store
  (\<open>RouterCleanup\<close>); any other one is \<open>CloseHandler\<close> with its outcome. A callback
  that calls back into the transport is outside the model, and so is the logging
  with \<open>console.error\<close>, which changes nothing the program reads.
\<close>

datatype close_handler = RouterCleanup | CloseHandler "thrown option"

fun close_outcome :: "close_handler \<Rightarrow> thrown option" where
  "close_outcome RouterCleanup = None"
| "close_outcome (CloseHandler out) = out"

datatype event =
    OnCloseCalled
  | OnErrorCalled thrown
  | OnMessageCalled json

record transport =
  sessionId :: string
  messageEndpoint :: string
  response :: sse_response
  closed :: bool
  onclose :: "close_handler option"
  onerror :: "(thrown \<Rightarrow> thrown option) option"
  onmessage :: "(json \<Rightarrow> thrown option) option"

text \<open>
  An operation returns its result (\<open>Inl e\<close>: it throws \<open>e\<close>, for an \<open>async\<close>
  function: its promise is rejected with \<open>e\<close>), the transport afterwards and the
  callbacks it called, in order.
\<close>

type_synonym 'a outcome = "(thrown + 'a) \<times> transport \<times> event list"

abbreviation result :: "'r \<times> transport \<times> event list \<Rightarrow> 'r" where
  "result out \<equiv> fst out"

abbreviation after :: "'r \<times> transport \<times> event list \<Rightarrow> transport" where
  "after out \<equiv> fst (snd out)"

abbreviation events :: "'r \<times> transport \<times> event list \<Rightarrow> event list" where
  "events out \<equiv> snd (snd out)"

definition transport_closed_error :: thrown where
  "transport_closed_error = JsError ''Transport is closed''"

text \<open>
  The constructor; \<open>uuid\<close> is the value \<open>uuidv4()\<close> returns. The listener it puts on
  the response's \<open>close\<close> signal is \<open>on_response_close\<close> below.
\<close>

definition new_transport :: "string \<Rightarrow> string \<Rightarrow> sse_response \<Rightarrow> transport" where
  "new_transport uuid endpoint res =
     \<lparr> sessionId = uuid,
       messageEndpoint = endpoint,
       response =
         setHeader ''X-Accel-Buffering'' ''no''
           (setHeader ''Connection'' ''keep-alive''
             (setHeader ''Cache-Control'' ''no-cache''
               (setHeader ''Content-Type'' ''text/event-stream'' res))),
       closed = False,
       onclose = None,
       onerror = None,
       onmessage = None \<rparr>"

text \<open>\<open>if (this.onerror && error instanceof Error) this.onerror(error)\<close>\<close>

definition report_error :: "transport \<Rightarrow> thrown \<Rightarrow> thrown option \<times> event list" where
  "report_error t e =
     (case onerror t of
        None \<Rightarrow> (None, [])
      | Some h \<Rightarrow> (if instanceof_Error e then (h e, [OnErrorCalled e]) else (None, [])))"

text \<open>\<open>if (this.onclose) this.onclose()\<close>\<close>

definition notify_close :: "transport \<Rightarrow> thrown option \<times> event list" where
  "notify_close t =
     (case onclose t of
        None \<Rightarrow> (None, [])
      | Some h \<Rightarrow> (close_outcome h, [OnCloseCalled]))"

text \<open>The two writes inside the \<open>try\<close> of \<open>sendEvent\<close>.\<close>

definition sendEvent_writes :: "string \<Rightarrow> string \<Rightarrow> sse_response \<Rightarrow> thrown option \<times> sse_response" where
  "sendEvent_writes ev d r =
     (case response_write (''event: '' @ ev @ [newline]) r of
        (Some e, r1) \<Rightarrow> (Some e, r1)
      | (None, r1) \<Rightarrow> response_write (''data: '' @ d @ [newline, newline]) r1)"

definition close_payload :: json where
  "close_payload = JObj [(''reason'', JStr ''Server closing connection'')]"

text \<open>The \<open>catch\<close> of \<open>close\<close>, and what follows the \<open>try\<close> statement.\<close>

definition close_finish :: "transport \<Rightarrow> event list \<Rightarrow> unit outcome" where
  "close_finish t evs =
     (case notify_close t of
        (None, evs') \<Rightarrow> (Inr (), t, evs @ evs')
      | (Some e, evs') \<Rightarrow> (Inl e, t, evs @ evs'))"

definition close_catch :: "thrown \<Rightarrow> transport \<Rightarrow> event list \<Rightarrow> unit outcome" where
  "close_catch e t evs =
     (case report_error t e of
        (Some e', evs') \<Rightarrow> (Inl e', t, evs @ evs')
      | (None, evs') \<Rightarrow> close_finish t (evs @ evs'))"

text \<open>
  \<open>sendEvent\<close> and \<open>close\<close> call each other: a failed write closes the transport, and
  closing sends the \<open>close\<close> event. Both run to their end without suspending (there is
  no \<open>await\<close> in either), so the call of \<open>close\<close> inside \<open>sendEvent\<close> is an ordinary
  nested call; its promise is never awaited, and a rejection
  (\<open>.catch(console.error)\<close>) is dropped.
\<close>

function sendEvent :: "string \<Rightarrow> string \<Rightarrow> transport \<Rightarrow> unit outcome"
  and close :: "transport \<Rightarrow> unit outcome" where
  "sendEvent ev d t =
     (case sendEvent_writes ev d (response t) of
        (None, r) \<Rightarrow> (Inr (), t\<lparr>response := r\<rparr>, [])
      | (Some e, r) \<Rightarrow>
          (case report_error (t\<lparr>response := r\<rparr>) e of
             (Some e', evs) \<Rightarrow> (Inl e', t\<lparr>response := r\<rparr>, evs)
           | (None, evs) \<Rightarrow>
               (case close (t\<lparr>response := r\<rparr>) of
                  (res, t', evs') \<Rightarrow> (Inr (), t', evs @ evs'))))"
| "close t =
     (if \<not> closed t then
        (case sendEvent ''close'' (stringify close_payload) (t\<lparr>closed := True\<rparr>) of
           (Inl e, t1, evs) \<Rightarrow> close_catch e t1 evs
         | (Inr u, t1, evs) \<Rightarrow>
             (case response_end (response t1) of
                (Some e, r) \<Rightarrow> close_catch e (t1\<lparr>response := r\<rparr>) evs
              | (None, r) \<Rightarrow> close_finish (t1\<lparr>response := r\<rparr>) evs))
      else (Inr (), t, []))"
  by pat_completeness auto
termination
  by (relation "measure (\<lambda>x. case x of
        Inl (ev, d, t) \<Rightarrow> (if closed t then 1 else 3)
      | Inr t \<Rightarrow> (if closed t then 0 else 2))") auto

declare sendEvent.simps [simp del] close.simps [simp del]

definition start :: "transport \<Rightarrow> unit outcome" where
  "start t =
     (if closed t then (Inl transport_closed_error, t, [])
      else sendEvent ''endpoint''
             (stringify (JObj [(''endpoint'', JStr (messageEndpoint t @ ''?sessionId='' @ sessionId t))]))
             t)"

definition send :: "json \<Rightarrow> transport \<Rightarrow> unit outcome" where
  "send message t =
     (if closed t then (Inl transport_closed_error, t, [])
      else sendEvent ''message'' (stringify message) t)"

text \<open>
  The listener on the response's \<open>close\<close> signal (the client went away, or the
  response was ended).
\<close>

definition on_response_close :: "transport \<Rightarrow> unit outcome" where
  "on_response_close t =
     (if \<not> closed t then
        (case notify_close (t\<lparr>closed := True\<rparr>) of
           (None, evs) \<Rightarrow> (Inr (), t\<lparr>closed := True\<rparr>, evs)
         | (Some e, evs) \<Rightarrow> (Inl e, t\<lparr>closed := True\<rparr>, evs))
      else (Inr (), t, []))"

text \<open>
  The reply to a POST request. \<open>res.status(c).json(v)\<close> and \<open>res.status(c).send(s)\<close>
  send the whole reply at once, so the response object of the POST is the reply sent
  so far, if any (\<open>res.headersSent\<close> is that a reply was sent).
\<close>

datatype http_body = TextBody string | JsonBody json

record http_reply =
  status :: nat
  body :: http_body

definition ack_reply :: http_reply where
  "ack_reply = \<lparr> status = 200, body = JsonBody (JObj [(''success'', JBool True)]) \<rparr>"

definition server_error_reply :: http_reply where
  "server_error_reply =
     \<lparr> status = 500,
       body = JsonBody (JObj [(''error'',
                JObj [(''code'', JNum (- 32000)), (''message'', JStr ''Server error'')])]) \<rparr>"

text \<open>
  \<open>handlePostMessage(req, res, message)\<close>: the request object is not read; the second
  component of the result is what was sent on \<open>res\<close>. Sending a reply on \<open>res\<close> is
  taken to succeed.
\<close>

definition handlePostMessage ::
  "json \<Rightarrow> transport \<Rightarrow> (thrown + unit) \<times> http_reply option \<times> transport \<times> event list" where
  "handlePostMessage message t =
     (if closed t then (Inl transport_closed_error, None, t, [])
      else
        (case (case onmessage t of
                 None \<Rightarrow> (None, [])
               | Some h \<Rightarrow> (h message, [OnMessageCalled message])) of
           (None, evs) \<Rightarrow> (Inr (), Some ack_reply, t, evs)
         | (Some e, evs) \<Rightarrow>
             (case report_error t e of
                (Some e', evs') \<Rightarrow> (Inl e', None, t, evs @ evs')
              | (None, evs') \<Rightarrow> (Inr (), Some server_error_reply, t, evs @ evs'))))"

subsection \<open>Sequences of calls on one transport\<close>

text \<open>
  What the owner and the connection can do with a transport, and a run of such calls
  one after the other; a call that fails does not stop the ones after it. The result
  of a run is the list of the calls' results, the transport and the trace.
\<close>

datatype transport_call =
    Start
  | Send json
  | HandlePost json
  | Close
  | ResponseClosed

fun call :: "transport_call \<Rightarrow> transport \<Rightarrow> unit outcome" where
  "call Start t = start t"
| "call (Send m) t = send m t"
| "call (HandlePost m) t =
     (case handlePostMessage m t of (res, reply, t', evs) \<Rightarrow> (res, t', evs))"
| "call Close t = close t"
| "call ResponseClosed t = on_response_close t"

fun calls :: "transport_call list \<Rightarrow> transport \<Rightarrow> (thrown + unit) list \<times> transport \<times> event list" where
  "calls [] t = ([], t, [])"
| "calls (c # cs) t =
     (case call c t of
        (res, t1, evs) \<Rightarrow>
          (case calls cs t1 of
             (ress, t2, evs') \<Rightarrow> (res # ress, t2, evs @ evs')))"

section \<open>The session store (\<open>src/server/session-store.ts\<close>)\<close>

text \<open>
  A JavaScript \<open>Map\<close> keeps its entries in insertion order, and \<open>set\<close> on a key that
  is present replaces the value where it stands.
\<close>

fun map_set :: "'k \<Rightarrow> 'v \<Rightarrow> ('k \<times> 'v) list \<Rightarrow> ('k \<times> 'v) list" where
  "map_set k v [] = [(k, v)]"
| "map_set k v (p # ps) = (if fst p = k then (k, v) # ps else p # map_set k v ps)"

definition map_get :: "'k \<Rightarrow> ('k \<times> 'v) list \<Rightarrow> 'v option" where
  "map_get k ps = map_of ps k"

definition map_has :: "'k \<Rightarrow> ('k \<times> 'v) list \<Rightarrow> bool" where
  "map_has k ps = (map_of ps k \<noteq> None)"

definition map_delete :: "'k \<Rightarrow> ('k \<times> 'v) list \<Rightarrow> ('k \<times> 'v) list" where
  "map_delete k ps = filter (\<lambda>p. fst p \<noteq> k) ps"

text \<open>
  Transports are objects: the store, the router and the callbacks hold references to
  them. \<open>transports\<close> maps a reference to the object's present state, \<open>sessions\<close> is
  the store's \<open>Map\<close> from session id to reference, and \<open>trace\<close> collects the callbacks
  called so far. A reference in the program always has its object; where the model
  meets a reference without one it does nothing (and the router answers as for an
  unknown session).
\<close>

record server =
  sessions :: "(string \<times> nat) list"
  transports :: "nat \<Rightarrow> transport option"
  trace :: "event list"

definition registerSession :: "nat \<Rightarrow> server \<Rightarrow> server" where
  "registerSession ref s =
     (case transports s ref of
        None \<Rightarrow> s
      | Some t \<Rightarrow> s\<lparr>sessions := map_set (sessionId t) ref (sessions s)\<rparr>)"

definition getSession :: "string \<Rightarrow> server \<Rightarrow> nat option" where
  "getSession sid s = map_get sid (sessions s)"

definition removeSession :: "string \<Rightarrow> server \<Rightarrow> bool \<times> server" where
  "removeSession sid s = (map_has sid (sessions s), s\<lparr>sessions := map_delete sid (sessions s)\<rparr>)"

definition sessionCount :: "server \<Rightarrow> nat" where
  "sessionCount s = length (sessions s)"

text \<open>
  What the callbacks called by a transport do to the rest of the server: the router's
  \<open>onclose\<close> removes the transport's session id from the store.
\<close>

definition run_callbacks :: "transport \<Rightarrow> event list \<Rightarrow> server \<Rightarrow> server" where
  "run_callbacks t evs s =
     (if OnCloseCalled \<in> set evs \<and> onclose t = Some RouterCleanup
      then snd (removeSession (sessionId t) (s\<lparr>trace := trace s @ evs\<rparr>))
      else s\<lparr>trace := trace s @ evs\<rparr>)"

text \<open>
  One element of \<open>closePromises\<close>: \<open>transport.close().catch(err => ...)\<close>. \<open>close\<close>
  has run to its end when the call returns. A rejection is caught by the handler,
  which logs \<open>err.message\<close>; reading that property throws a \<open>TypeError\<close> (its message
  is the engine's) when \<open>err\<close> is \<open>null\<close> or \<open>undefined\<close>, and then the element is a
  rejected promise.
\<close>

definition catch_handler_error :: thrown where
  "catch_handler_error = JsError ''TypeError''"

definition close_transport :: "nat \<Rightarrow> server \<Rightarrow> (thrown + unit) \<times> server" where
  "close_transport ref s =
     (case transports s ref of
        None \<Rightarrow> (Inr (), s)
      | Some t \<Rightarrow>
          (case close t of
             (res, t', evs) \<Rightarrow>
               ((case res of
                   Inl JsNullish \<Rightarrow> Inl catch_handler_error
                 | Inl e \<Rightarrow> Inr ()
                 | Inr u \<Rightarrow> Inr ()),
                run_callbacks t' evs (s\<lparr>transports := (transports s)(ref \<mapsto> t')\<rparr>))))"

text \<open>
  The \<open>map\<close> over the snapshot: the calls of \<open>close\<close> run one after the other, each to
  its end, before any of the promises is looked at.
\<close>

fun close_each :: "nat list \<Rightarrow> server \<Rightarrow> (thrown + unit) list \<times> server" where
  "close_each [] s = ([], s)"
| "close_each (ref # refs) s =
     (case close_transport ref s of
        (res, s1) \<Rightarrow>
          (case close_each refs s1 of
             (ress, s2) \<Rightarrow> (res # ress, s2)))"

text \<open>\<open>Promise.all\<close> is rejected with the first rejection among its elements.\<close>

fun first_rejection :: "(thrown + unit) list \<Rightarrow> thrown option" where
  "first_rejection [] = None"
| "first_rejection (Inl e # rs) = Some e"
| "first_rejection (Inr u # rs) = first_rejection rs"

text \<open>
  \<open>closeAllSessions\<close>: when the \<open>await\<close> throws, the function is left before the
  table is cleared.
\<close>

definition closeAllSessions :: "server \<Rightarrow> (thrown + unit) \<times> server" where
  "closeAllSessions s =
     (let snapshot = map snd (sessions s) in
      case close_each snapshot s of
        (ress, s') \<Rightarrow>
          (case first_rejection ress of
             Some e \<Rightarrow> (Inl e, s')
           | None \<Rightarrow> (Inr (), s'\<lparr>sessions := []\<rparr>)))"

section \<open>The router's handler of POST /messages\<close>





section \<open>Auxiliary notions for the properties\<close>

text \<open>What no operation changes: the identity, the callbacks, and a set \<open>closed\<close> flag.\<close>

definition keeps :: "transport \<Rightarrow> transport \<Rightarrow> bool" where
  "keeps t t' \<longleftrightarrow>
     sessionId t' = sessionId t \<and> messageEndpoint t' = messageEndpoint t \<and>
     onclose t' = onclose t \<and> onerror t' = onerror t \<and> onmessage t' = onmessage t \<and>
     (closed t \<longrightarrow> closed t')"

text \<open>
  The chunks that belong on the stream: the first line of an envelope of one of the
  three kinds, or a data line with a serialised JSON value; and a transport whose
  stream has grown by such chunks only.
\<close>

definition stream_line :: "string \<Rightarrow> bool" where
  "stream_line w \<longleftrightarrow>
     w = ''event: endpoint'' @ [newline] \<or> w = ''event: message'' @ [newline] \<or>
     w = ''event: close'' @ [newline] \<or>
     (\<exists>j. w = ''data: '' @ stringify j @ [newline, newline])"

definition appends_lines :: "transport \<Rightarrow> transport \<Rightarrow> bool" where
  "appends_lines t t' \<longleftrightarrow>
     (\<exists>ws. written (response t') = written (response t) @ ws \<and> (\<forall>w \<in> set ws. stream_line w))"

text \<open>
  Concrete states for the examples: a response on which nothing was written, a
  transport as the router sets it up, and the same transport on a connection whose
  second write will fail.
\<close>

definition fresh_response :: sse_response where
  "fresh_response = \<lparr> headers = [], written = [], ended = False, faults = [] \<rparr>"

definition example_transport :: transport where
  "example_transport =
     (new_transport ''6f1c'' ''/messages'' fresh_response)
       \<lparr> onclose := Some RouterCleanup, onerror := Some (\<lambda>e. None),
         onmessage := Some (\<lambda>m. None) \<rparr>"

definition broken_transport :: transport where
  "broken_transport =
     example_transport
       \<lparr> response := (response example_transport)\<lparr> faults := [None, Some (JsError ''write EPIPE'')] \<rparr> \<rparr>"

text \<open>
  A transport whose first write fails and whose \<open>onclose\<close> callback throws; a server
  with two sessions, the first on that transport; a server holding two open
  transports that have the same session id; and two transports whose \<open>onmessage\<close>
  callback throws, an \<open>Error\<close> object the one, a string the other.
\<close>

definition failing_transport :: transport where
  "failing_transport =
     (new_transport ''a81e'' ''/messages'' (fresh_response\<lparr>faults := [Some (JsError ''write EPIPE'')]\<rparr>))
       \<lparr> onclose := Some (CloseHandler (Some (JsError ''cleanup failed''))) \<rparr>"

definition example_server :: server where
  "example_server =
     \<lparr> sessions = [(''a81e'', 0), (''6f1c'', 1)],
       transports = [0 \<mapsto> failing_transport, 1 \<mapsto> example_transport],
       trace = [] \<rparr>"

definition colliding_server :: server where
  "colliding_server =
     \<lparr> sessions = [],
       transports = [0 \<mapsto> example_transport, 1 \<mapsto> broken_transport],
       trace = [] \<rparr>"


definition error_thrower :: transport where
  "error_thrower = example_transport\<lparr> onmessage := Some (\<lambda>m. Some (JsError ''handler failed'')) \<rparr>"

definition string_thrower :: transport where
  "string_thrower = example_transport\<lparr> onmessage := Some (\<lambda>m. Some (JsValue ''boom'')) \<rparr>"

text \<open>
  A transport whose \<open>onclose\<close> callback throws \<open>null\<close>, and a server with two
  sessions, the first on that transport.
\<close>

definition null_thrower :: transport where
  "null_thrower =
     (new_transport ''c3d2'' ''/messages'' fresh_response)
       \<lparr> onclose := Some (CloseHandler (Some JsNullish)) \<rparr>"

definition null_server :: server where
  "null_server =
     \<lparr> sessions = [(''c3d2'', 0), (''6f1c'', 1)],
       transports = [0 \<mapsto> null_thrower, 1 \<mapsto> example_transport],
       trace = [] \<rparr>"

section \<open>Facts about the serialisation\<close>













section \<open>Facts about the transport\<close>

subsection \<open>The sink\<close>

lemma response_write_ok:
  "set (take 1 (faults r)) \<subseteq> {None} \<Longrightarrow>
   response_write chunk r = (None, r\<lparr>written := written r @ [chunk], faults := drop 1 (faults r)\<rparr>)"
  by (cases "faults r") (auto simp: response_write_def split: option.splits)

lemma sendEvent_writes_ok:
  assumes "set (take 2 (faults r)) \<subseteq> {None}"
  shows "sendEvent_writes ev d r =
     (None, r\<lparr>written := written r @ [''event: '' @ ev @ [newline], ''data: '' @ d @ [newline, newline]],
              faults := drop 2 (faults r)\<rparr>)"
proof (cases "faults r")
  case Nil
  then show ?thesis by (simp add: sendEvent_writes_def response_write_def)
next
  case (Cons f fs)
  with assms have f: "f = None" by simp
  show ?thesis
  proof (cases fs)
    case Nil
    with Cons f show ?thesis by (simp add: sendEvent_writes_def response_write_def)
  next
    case (Cons g gs)
    with \<open>faults r = f # fs\<close> assms have "g = None" by simp
    with Cons \<open>faults r = f # fs\<close> f show ?thesis
      by (simp add: sendEvent_writes_def response_write_def)
  qed
qed

lemma sendEvent_writes_headers: "headers (snd (sendEvent_writes ev d r)) = headers r"
  by (auto simp: sendEvent_writes_def response_write_def split: list.splits option.splits)

subsection \<open>close and sendEvent\<close>

lemma close_closed: "closed t \<Longrightarrow> close t = (Inr (), t, [])"
  by (simp add: close.simps)

lemma sendEvent_ok:
  "sendEvent_writes ev d (response t) = (None, r) \<Longrightarrow> sendEvent ev d t = (Inr (), t\<lparr>response := r\<rparr>, [])"
  by (simp add: sendEvent.simps)

lemma sendEvent_closed:
  "closed t \<Longrightarrow> sendEvent ev d t =
     (case sendEvent_writes ev d (response t) of
        (None, r) \<Rightarrow> (Inr (), t\<lparr>response := r\<rparr>, [])
      | (Some e, r) \<Rightarrow>
          (case report_error t e of
             (Some e', evs) \<Rightarrow> (Inl e', t\<lparr>response := r\<rparr>, evs)
           | (None, evs) \<Rightarrow> (Inr (), t\<lparr>response := r\<rparr>, evs)))"
  by (simp add: sendEvent.simps close_closed report_error_def split: prod.splits option.splits)

lemma keeps_refl: "keeps t t"
  by (simp add: keeps_def)

lemma keeps_trans: "keeps t t' \<Longrightarrow> keeps t' t'' \<Longrightarrow> keeps t t''"
  by (simp add: keeps_def)

lemma keeps_sendEvent_closed:
  "closed t \<Longrightarrow> keeps t (after (sendEvent ev d t)) \<and> closed (after (sendEvent ev d t))"
  by (simp add: sendEvent_closed keeps_def split: prod.splits option.splits)

lemma close_finish_after: "after (close_finish t evs) = t"
  by (simp add: close_finish_def split: prod.splits option.splits)

lemma close_catch_after: "after (close_catch e t evs) = t"
  by (simp add: close_catch_def close_finish_after split: prod.splits option.splits)

lemma close_open:
  "\<not> closed t \<Longrightarrow> close t =
     (case sendEvent ''close'' (stringify close_payload) (t\<lparr>closed := True\<rparr>) of
        (Inl e, t1, evs) \<Rightarrow> close_catch e t1 evs
      | (Inr u, t1, evs) \<Rightarrow>
          (case response_end (response t1) of
             (Some e, r) \<Rightarrow> close_catch e (t1\<lparr>response := r\<rparr>) evs
           | (None, r) \<Rightarrow> close_finish (t1\<lparr>response := r\<rparr>) evs))"
  by (simp add: close.simps)

lemma keeps_close: "keeps t (after (close t)) \<and> closed (after (close t))"
proof (cases "closed t")
  case True
  then show ?thesis by (simp add: close_closed keeps_def)
next
  case False
  let ?t1 = "t\<lparr>closed := True\<rparr>"
  have k: "keeps ?t1 (after (sendEvent ''close'' (stringify close_payload) ?t1))
        \<and> closed (after (sendEvent ''close'' (stringify close_payload) ?t1))"
    by (rule keeps_sendEvent_closed) simp
  show ?thesis
    using k False
    by (auto simp: close_open close_catch_after close_finish_after keeps_def
             split: prod.splits sum.splits option.splits)
qed

lemma keeps_sendEvent: "keeps t (after (sendEvent ev d t))"
proof (cases "sendEvent_writes ev d (response t)")
  case (Pair f r)
  show ?thesis
  proof (cases f)
    case None
    with Pair show ?thesis by (simp add: sendEvent_ok keeps_def)
  next
    case (Some e)
    have "keeps (t\<lparr>response := r\<rparr>) (after (close (t\<lparr>response := r\<rparr>)))"
      using keeps_close by blast
    with Pair Some show ?thesis
      by (auto simp: sendEvent.simps keeps_def split: prod.splits option.splits)
  qed
qed

lemma keeps_start: "keeps t (after (start t))"
  by (simp add: start_def keeps_sendEvent keeps_refl)

lemma keeps_send: "keeps t (after (send m t))"
  by (simp add: send_def keeps_sendEvent keeps_refl)

lemma handlePostMessage_same: "handlePostMessage m t = (res, reply, t', evs) \<Longrightarrow> t' = t"
  by (auto simp: handlePostMessage_def split: prod.splits option.splits if_splits)

lemma keeps_on_response_close:
  "keeps t (after (on_response_close t)) \<and> closed (after (on_response_close t))"
  by (simp add: on_response_close_def keeps_def split: prod.splits option.splits)

lemma keeps_call: "keeps t (after (call c t))"
proof (cases c)
  case (HandlePost m)
  then show ?thesis
    by (auto simp: keeps_refl split: prod.splits dest: handlePostMessage_same)
qed (simp_all add: keeps_start keeps_send keeps_close keeps_on_response_close)

lemma keeps_calls: "keeps t (after (calls cs t))"
proof (induction cs arbitrary: t)
  case Nil
  show ?case by (simp add: keeps_refl)
next
  case (Cons c cs)
  show ?case
    using keeps_call [of t c] Cons [of "after (call c t)"]
    by (auto split: prod.splits intro: keeps_trans)
qed

lemma closed_call: "closed t \<Longrightarrow> closed (after (call c t))"
  using keeps_call [of t c] by (simp add: keeps_def)

lemma closed_calls: "closed t \<Longrightarrow> closed (after (calls cs t))"
  using keeps_calls [of t cs] by (simp add: keeps_def)

lemma send_closed: "closed t \<Longrightarrow> send m t = (Inl transport_closed_error, t, [])"
  by (simp add: send_def)

lemma handlePostMessage_closed:
  "closed t \<Longrightarrow> handlePostMessage m t = (Inl transport_closed_error, None, t, [])"
  by (simp add: handlePostMessage_def)

lemma calls_Close_closed:
  "closed t \<Longrightarrow> calls (replicate n Close) t = (replicate n (Inr ()), t, [])"
  by (induction n) (simp_all add: close_closed)

text \<open>An error that \<open>close\<close> raises was thrown by a callback of the owner.\<close>

lemma report_error_origin:
  "report_error t e = (Some e', evs) \<Longrightarrow> \<exists>g. onerror t = Some g \<and> g e = Some e'"
  by (auto simp: report_error_def split: option.splits if_splits)

lemma close_finish_origin:
  "result (close_finish t evs) = Inl e \<Longrightarrow> \<exists>h. onclose t = Some h \<and> close_outcome h = Some e"
  by (auto simp: close_finish_def notify_close_def split: option.splits)

lemma close_catch_origin:
  assumes "result (close_catch x t evs) = Inl e"
  shows "(\<exists>g y. onerror t = Some g \<and> g y = Some e) \<or> (\<exists>h. onclose t = Some h \<and> close_outcome h = Some e)"
proof (cases "report_error t x")
  case (Pair r evs')
  show ?thesis
  proof (cases r)
    case None
    with Pair assms show ?thesis
      using close_finish_origin [of t "evs @ evs'" e] by (simp add: close_catch_def)
  next
    case (Some e')
    with Pair assms have "e' = e" by (simp add: close_catch_def)
    with Pair Some show ?thesis
      using report_error_origin [of t x e evs'] by blast
  qed
qed

lemma close_error_origin:
  assumes "result (close t) = Inl e"
  shows "(\<exists>g y. onerror t = Some g \<and> g y = Some e) \<or> (\<exists>h. onclose t = Some h \<and> close_outcome h = Some e)"
proof (cases "closed t")
  case True
  with assms show ?thesis by (simp add: close_closed)
next
  case False
  let ?t1 = "t\<lparr>closed := True\<rparr>"
  obtain res t2 evs where s: "sendEvent ''close'' (stringify close_payload) ?t1 = (res, t2, evs)"
    by (cases "sendEvent ''close'' (stringify close_payload) ?t1") auto
  have "keeps ?t1 t2"
    using keeps_sendEvent [of ?t1 "''close''" "stringify close_payload"] s by simp
  then have h: "onerror t2 = onerror t" "onclose t2 = onclose t"
    by (simp_all add: keeps_def)
  show ?thesis
  proof (cases res)
    case (Inl x)
    with assms False s have "result (close_catch x t2 evs) = Inl e"
      by (simp add: close_open)
    then show ?thesis
      using close_catch_origin [of x t2 evs e] h by simp
  next
    case (Inr u)
    obtain f r where e: "response_end (response t2) = (f, r)"
      by (cases "response_end (response t2)") auto
    show ?thesis
    proof (cases f)
      case None
      with assms False s Inr e have "result (close_finish (t2\<lparr>response := r\<rparr>) evs) = Inl e"
        by (simp add: close_open)
      then show ?thesis
        using close_finish_origin [of "t2\<lparr>response := r\<rparr>" evs e] h by simp
    next
      case (Some x)
      with assms False s Inr e have "result (close_catch x (t2\<lparr>response := r\<rparr>) evs) = Inl e"
        by (simp add: close_open)
      then show ?thesis
        using close_catch_origin [of x "t2\<lparr>response := r\<rparr>" evs e] h by simp
    qed
  qed
qed

lemma close_total:
  assumes err: "\<forall>g e. onerror t = Some g \<longrightarrow> g e = None"
      and cl: "\<forall>h. onclose t = Some h \<longrightarrow> close_outcome h = None"
  shows "result (close t) = Inr ()"
proof (cases "result (close t)")
  case (Inl e)
  then show ?thesis
    using close_error_origin [of t e] err cl by auto
next
  case (Inr u)
  then show ?thesis by simp
qed


subsection \<open>start\<close>

lemma start_closed: "closed t \<Longrightarrow> start t = (Inl transport_closed_error, t, [])"
  by (simp add: start_def)

lemma start_ok:
  assumes "\<not> closed t" and "set (take 2 (faults (response t))) \<subseteq> {None}"
  shows "start t =
     (Inr (),
      t\<lparr>response := (response t)
          \<lparr>written := written (response t) @
             [''event: endpoint'' @ [newline],
              ''data: '' @ stringify (JObj [(''endpoint'',
                  JStr (messageEndpoint t @ ''?sessionId='' @ sessionId t))]) @ [newline, newline]],
           faults := drop 2 (faults (response t))\<rparr>\<rparr>,
      [])"
  using assms by (simp add: start_def sendEvent_ok sendEvent_writes_ok)


subsection \<open>The close signal of the connection, and how often \<open>onclose\<close> is called\<close>

lemma on_response_close_closed: "closed t \<Longrightarrow> on_response_close t = (Inr (), t, [])"
  by (simp add: on_response_close_def)

lemma on_response_close_open:
  "\<not> closed t \<Longrightarrow> on_response_close t =
     ((case onclose t of
         None \<Rightarrow> Inr ()
       | Some h \<Rightarrow> (case close_outcome h of None \<Rightarrow> Inr () | Some e \<Rightarrow> Inl e)),
      t\<lparr>closed := True\<rparr>,
      (case onclose t of None \<Rightarrow> [] | Some h \<Rightarrow> [OnCloseCalled]))"
  by (simp add: on_response_close_def notify_close_def split: option.splits)

lemma calls_closing_closed:
  "closed t \<Longrightarrow> set cs \<subseteq> {Close, ResponseClosed} \<Longrightarrow>
   calls cs t = (replicate (length cs) (Inr ()), t, [])"
  by (induction cs) (auto simp: close_closed on_response_close_closed)

lemma report_error_events: "report_error t e = (r, evs) \<Longrightarrow> OnCloseCalled \<notin> set evs"
  by (auto simp: report_error_def split: option.splits if_splits)

lemma sendEvent_closed_events:
  "closed t \<Longrightarrow> OnCloseCalled \<notin> set (events (sendEvent ev d t))"
  by (auto simp: sendEvent_closed split: prod.splits option.splits dest: report_error_events)

lemma count_notin: "x \<notin> set xs \<Longrightarrow> count_list xs x = 0"
  by (induction xs) auto

lemma close_finish_events:
  "events (close_finish t evs) = evs @ (case onclose t of None \<Rightarrow> [] | Some h \<Rightarrow> [OnCloseCalled])"
  by (simp add: close_finish_def notify_close_def split: option.splits)

lemma close_finish_count:
  "OnCloseCalled \<notin> set evs \<Longrightarrow>
   count_list (events (close_finish t evs)) OnCloseCalled = (if onclose t = None then 0 else 1)"
  by (simp add: close_finish_events count_notin split: option.splits)

lemma close_catch_count_le:
  "OnCloseCalled \<notin> set evs \<Longrightarrow> count_list (events (close_catch e t evs)) OnCloseCalled \<le> 1"
proof -
  obtain r evs' where r: "report_error t e = (r, evs')"
    by (cases "report_error t e") auto
  assume "OnCloseCalled \<notin> set evs"
  then have n: "OnCloseCalled \<notin> set (evs @ evs')"
    using report_error_events [OF r] by simp
  show ?thesis
    using r close_finish_count [OF n, of t] count_notin [OF n]
    by (cases r) (simp_all add: close_catch_def del: set_append)
qed

lemma close_catch_count:
  assumes "OnCloseCalled \<notin> set evs" and "\<forall>g x. onerror t = Some g \<longrightarrow> g x = None"
  shows "count_list (events (close_catch e t evs)) OnCloseCalled = (if onclose t = None then 0 else 1)"
proof -
  have "fst (report_error t e) = None"
    using assms(2) by (auto simp: report_error_def split: option.splits)
  then obtain evs' where r: "report_error t e = (None, evs')"
    by (cases "report_error t e") auto
  then have "OnCloseCalled \<notin> set (evs @ evs')"
    using report_error_events [OF r] assms(1) by simp
  then show ?thesis
    using r by (simp add: close_catch_def close_finish_count del: set_append)
qed

lemma close_count_le: "count_list (events (close t)) OnCloseCalled \<le> 1"
proof (cases "closed t")
  case True
  then show ?thesis by (simp add: close_closed)
next
  case False
  let ?t1 = "t\<lparr>closed := True\<rparr>"
  obtain res t2 evs where s: "sendEvent ''close'' (stringify close_payload) ?t1 = (res, t2, evs)"
    by (cases "sendEvent ''close'' (stringify close_payload) ?t1") auto
  have n: "OnCloseCalled \<notin> set evs"
    using sendEvent_closed_events [of ?t1 "''close''" "stringify close_payload"] s by simp
  show ?thesis
    using False s close_catch_count_le [OF n] close_finish_count [OF n]
    by (auto simp: close_open split: sum.splits prod.splits option.splits)
qed

lemma close_count:
  assumes "\<not> closed t" and "\<forall>g x. onerror t = Some g \<longrightarrow> g x = None"
  shows "count_list (events (close t)) OnCloseCalled = (if onclose t = None then 0 else 1)"
proof -
  let ?t1 = "t\<lparr>closed := True\<rparr>"
  obtain res t2 evs where s: "sendEvent ''close'' (stringify close_payload) ?t1 = (res, t2, evs)"
    by (cases "sendEvent ''close'' (stringify close_payload) ?t1") auto
  have n: "OnCloseCalled \<notin> set evs"
    using sendEvent_closed_events [of ?t1 "''close''" "stringify close_payload"] s by simp
  have "keeps ?t1 t2"
    using keeps_sendEvent [of ?t1 "''close''" "stringify close_payload"] s by simp
  then have h: "onerror t2 = onerror t" "onclose t2 = onclose t"
    by (simp_all add: keeps_def)
  have cat: "count_list (events (close_catch e t3 evs)) OnCloseCalled = (if onclose t = None then 0 else 1)"
    if "onclose t3 = onclose t" "onerror t3 = onerror t" for e t3
    using close_catch_count [OF n, of t3 e] that assms(2) by simp
  have fin: "count_list (events (close_finish t3 evs)) OnCloseCalled = (if onclose t = None then 0 else 1)"
    if "onclose t3 = onclose t" for t3
    using close_finish_count [OF n, of t3] that by simp
  show ?thesis
    using assms(1) s h cat fin
    by (auto simp: close_open split: sum.splits prod.splits option.splits)
qed


subsection \<open>What a successful operation writes\<close>


lemma send_ok:
  assumes "\<not> closed t" and "set (take 2 (faults (response t))) \<subseteq> {None}"
  shows "send m t =
     (Inr (),
      t\<lparr>response := (response t)
          \<lparr>written := written (response t) @
             [''event: message'' @ [newline], ''data: '' @ stringify m @ [newline, newline]],
           faults := drop 2 (faults (response t))\<rparr>\<rparr>,
      [])"
  using assms by (simp add: send_def sendEvent_ok sendEvent_writes_ok)





subsection \<open>Every chunk written is a line of an envelope\<close>



lemma appends_lines_same_written:
  "written (response t') = written (response t) \<Longrightarrow> appends_lines t t'"
  by (simp add: appends_lines_def)

lemma response_write_written:
  "written (snd (response_write c r)) = written r \<or> written (snd (response_write c r)) = written r @ [c]"
  by (auto simp: response_write_def split: list.splits option.splits)










subsection \<open>Operations on an open transport whose \<open>onerror\<close> returns normally\<close>

lemma report_error_returns:
  assumes "\<forall>g x. onerror t = Some g \<longrightarrow> g x = None"
  shows "report_error t e =
      (None, if onerror t \<noteq> None \<and> instanceof_Error e then [OnErrorCalled e] else [])"
  using assms by (auto simp: report_error_def split: option.splits)

lemma sendEvent_total:
  assumes "\<forall>g x. onerror t = Some g \<longrightarrow> g x = None"
  shows "result (sendEvent ev d t) = Inr ()"
proof -
  have "report_error (t\<lparr>response := r\<rparr>) e =
      (None, if onerror t \<noteq> None \<and> instanceof_Error e then [OnErrorCalled e] else [])" for r e
    using assms report_error_returns [of "t\<lparr>response := r\<rparr>" e] by simp
  then show ?thesis
    by (simp add: sendEvent.simps split: prod.splits option.splits)
qed

lemma send_total:
  "\<not> closed t \<Longrightarrow> \<forall>g x. onerror t = Some g \<longrightarrow> g x = None \<Longrightarrow> result (send m t) = Inr ()"
  by (simp add: send_def sendEvent_total)

lemma handlePostMessage_total:
  assumes "\<not> closed t" and "\<forall>g x. onerror t = Some g \<longrightarrow> g x = None"
  shows "fst (handlePostMessage m t) = Inr ()"
  using assms(1) report_error_returns [OF assms(2)]
  by (simp add: handlePostMessage_def split: prod.splits option.splits)

lemma handlePostMessage_ack:
  assumes "\<not> closed t" and "\<forall>h. onmessage t = Some h \<longrightarrow> h m = None"
  shows "handlePostMessage m t =
     (Inr (), Some ack_reply, t, (if onmessage t = None then [] else [OnMessageCalled m]))"
  using assms by (auto simp: handlePostMessage_def split: option.splits)


section \<open>Facts about the session store\<close>

lemma map_of_map_set: "map_of (map_set k v ps) = (map_of ps)(k \<mapsto> v)"
  by (induction ps) auto

lemma map_get_map_set: "map_get k' (map_set k v ps) = (if k' = k then Some v else map_get k' ps)"
  by (simp add: map_get_def map_of_map_set)

lemma keys_map_set:
  "map fst (map_set k v ps) = (if k \<in> fst ` set ps then map fst ps else map fst ps @ [k])"
  by (induction ps) auto

lemma length_map_set:
  "length (map_set k v ps) = (if map_get k ps = None then length ps + 1 else length ps)"
  using keys_map_set [of k v ps, THEN arg_cong, of length]
  by (simp add: map_get_def map_of_eq_None_iff split: if_splits)

lemma distinct_map_set: "distinct (map fst ps) \<Longrightarrow> distinct (map fst (map_set k v ps))"
  by (simp add: keys_map_set)



subsection \<open>closeAllSessions\<close>

lemma transports_run_callbacks: "transports (run_callbacks t evs s) = transports s"
  by (simp add: run_callbacks_def removeSession_def)

lemma transports_close_transport:
  "transports (snd (close_transport r s)) x =
     (if x = r then map_option (\<lambda>t. after (close t)) (transports s r) else transports s x)"
  by (cases "transports s r")
     (auto simp: close_transport_def transports_run_callbacks split: prod.splits)

lemma close_twice: "after (close (after (close t))) = after (close t)"
  using keeps_close [of t] by (simp add: close_closed)

lemma transports_close_each:
  "transports (snd (close_each rs s)) x =
     (if x \<in> set rs then map_option (\<lambda>t. after (close t)) (transports s x) else transports s x)"
proof (induction rs arbitrary: s)
  case Nil
  show ?case by simp
next
  case (Cons r rs)
  obtain res s1 where c: "close_transport r s = (res, s1)"
    by (cases "close_transport r s") auto
  then have t: "transports s1 y =
      (if y = r then map_option (\<lambda>t. after (close t)) (transports s r) else transports s y)" for y
    using transports_close_transport [of r s y] by simp
  obtain ress s2 where e: "close_each rs s1 = (ress, s2)"
    by (cases "close_each rs s1") auto
  have "transports s2 x =
     (if x \<in> set rs then map_option (\<lambda>t. after (close t)) (transports s1 x) else transports s1 x)"
    using Cons [of s1] e by simp
  then show ?case
    using c e t [of x] by (cases "transports s x") (auto simp: close_twice)
qed

lemma close_transport_result:
  "fst (close_transport r s) =
     (case transports s r of
        None \<Rightarrow> Inr ()
      | Some t \<Rightarrow> (if result (close t) = Inl JsNullish then Inl catch_handler_error else Inr ()))"
  by (auto simp: close_transport_def split: option.splits prod.splits sum.splits thrown.splits)

lemma close_result_after_close: "result (close (after (close t))) = Inr ()"
  using keeps_close [of t] by (simp add: close_closed)

lemma close_each_no_rejection:
  assumes "\<forall>r t. r \<in> set rs \<and> transports s r = Some t \<longrightarrow> result (close t) \<noteq> Inl JsNullish"
  shows "first_rejection (fst (close_each rs s)) = None"
  using assms
proof (induction rs arbitrary: s)
  case Nil
  show ?case by simp
next
  case (Cons r rs)
  obtain res s1 where c: "close_transport r s = (res, s1)"
    by (cases "close_transport r s") auto
  have res: "res = Inr ()"
    using close_transport_result [of r s] c Cons.prems
    by (cases "transports s r") auto
  have t: "transports s1 y =
      (if y = r then map_option (\<lambda>t. after (close t)) (transports s r) else transports s y)" for y
    using transports_close_transport [of r s y] c by simp
  have "\<forall>x t. x \<in> set rs \<and> transports s1 x = Some t \<longrightarrow> result (close t) \<noteq> Inl JsNullish"
  proof (intro allI impI)
    fix x t' assume a: "x \<in> set rs \<and> transports s1 x = Some t'"
    show "result (close t') \<noteq> Inl JsNullish"
    proof (cases "x = r")
      case True
      with a t [of x] obtain t0 where "transports s r = Some t0" "t' = after (close t0)"
        by (cases "transports s r") auto
      then show ?thesis by (simp add: close_result_after_close)
    next
      case False
      with a t [of x] have "transports s x = Some t'" by simp
      with a Cons.prems show ?thesis by auto
    qed
  qed
  then have "first_rejection (fst (close_each rs s1)) = None"
    by (rule Cons.IH)
  then show ?case
    using c res by (cases "close_each rs s1") simp
qed


text \<open>
  What \<open>closeAllSessions\<close> does for every store: each transport of the snapshot is
  left in the state \<open>close\<close> leaves it in, so it is closed, whatever the other calls
  of \<open>close\<close> did, and no other transport changes; when the call returns normally
  the table is empty; and it returns normally unless a \<open>close\<close> was rejected with
  \<open>null\<close> or \<open>undefined\<close>.
\<close>

lemma closeAllSessions_effect:
  "(\<forall>ref. transports (snd (closeAllSessions s)) ref =
         (if ref \<in> snd ` set (sessions s)
          then map_option (\<lambda>t. after (close t)) (transports s ref)
          else transports s ref))
   \<and> (\<forall>ref t. ref \<in> snd ` set (sessions s) \<and> transports s ref = Some t \<longrightarrow>
         (\<exists>t'. transports (snd (closeAllSessions s)) ref = Some t' \<and> closed t'))
   \<and> (fst (closeAllSessions s) = Inr () \<longrightarrow> sessions (snd (closeAllSessions s)) = [])
   \<and> ((\<forall>ref t. ref \<in> snd ` set (sessions s) \<and> transports s ref = Some t \<longrightarrow>
          result (close t) \<noteq> Inl JsNullish) \<longrightarrow>
        fst (closeAllSessions s) = Inr ())"
proof -
  obtain ress s' where e: "close_each (map snd (sessions s)) s = (ress, s')"
    by (cases "close_each (map snd (sessions s)) s") auto
  have tr: "transports (snd (closeAllSessions s)) ref = transports s' ref" for ref
    using e by (simp add: closeAllSessions_def split: option.splits)
  have t: "transports (snd (closeAllSessions s)) ref =
         (if ref \<in> snd ` set (sessions s)
          then map_option (\<lambda>t. after (close t)) (transports s ref)
          else transports s ref)" for ref
    using tr [of ref] transports_close_each [of "map snd (sessions s)" s ref] e by simp
  have c: "\<exists>t'. transports (snd (closeAllSessions s)) ref = Some t' \<and> closed t'"
    if "ref \<in> snd ` set (sessions s)" "transports s ref = Some t" for ref t
    using that t [of ref] keeps_close [of t] by simp
  have k: "fst (closeAllSessions s) = Inr () \<longrightarrow> sessions (snd (closeAllSessions s)) = []"
    using e by (simp add: closeAllSessions_def split: option.splits)
  have n: "fst (closeAllSessions s) = Inr ()"
    if "\<forall>ref t. ref \<in> snd ` set (sessions s) \<and> transports s ref = Some t \<longrightarrow>
          result (close t) \<noteq> Inl JsNullish"
  proof -
    have "first_rejection (fst (close_each (map snd (sessions s)) s)) = None"
      by (rule close_each_no_rejection) (use that in simp)
    then show ?thesis
      using e by (simp add: closeAllSessions_def)
  qed
  show ?thesis
    using t c k n by blast
qed

text \<open>
  In \<open>example_server\<close> the \<open>close\<close> of the first transport fails with an \<open>Error\<close>
  object; the second transport is closed all the same, \<open>closeAllSessions\<close> returns
  normally and the table is empty.
\<close>

lemma closeAllSessions_example:
  "result (close failing_transport) = Inl (JsError ''cleanup failed'')
   \<and> fst (closeAllSessions example_server) = Inr ()
   \<and> sessions (snd (closeAllSessions example_server)) = []
   \<and> transports (snd (closeAllSessions example_server)) 0 = Some (after (close failing_transport))
   \<and> transports (snd (closeAllSessions example_server)) 1 = Some (after (close example_transport))
   \<and> closed (after (close failing_transport)) \<and> closed (after (close example_transport))"
proof -
  have f: "result (close failing_transport) = Inl (JsError ''cleanup failed'')"
    by (simp add: failing_transport_def new_transport_def fresh_response_def setHeader_def
          close.simps sendEvent.simps sendEvent_writes_def response_write_def response_end_def
          report_error_def notify_close_def close_finish_def close_catch_def)
  have g: "result (close example_transport) = Inr ()"
    by (rule close_total) (simp_all add: example_transport_def new_transport_def)
  have k: "snd ` set (sessions example_server) = {0, 1}"
      "transports example_server 0 = Some failing_transport"
      "transports example_server 1 = Some example_transport"
    by (auto simp: example_server_def)
  have n: "\<forall>ref t. ref \<in> snd ` set (sessions example_server) \<and> transports example_server ref = Some t
            \<longrightarrow> result (close t) \<noteq> Inl JsNullish"
  proof (intro allI impI)
    fix ref t
    assume a: "ref \<in> snd ` set (sessions example_server) \<and> transports example_server ref = Some t"
    then have "ref = 0 \<or> ref = 1"
      by (simp add: k(1))
    then have "t = failing_transport \<or> t = example_transport"
      using a k(2,3) by auto
    then show "result (close t) \<noteq> Inl JsNullish"
      using f g by auto
  qed
  note all = closeAllSessions_effect [of example_server]
  have r: "fst (closeAllSessions example_server) = Inr ()"
    using all [THEN conjunct2, THEN conjunct2, THEN conjunct2] n by (rule mp)
  have e: "sessions (snd (closeAllSessions example_server)) = []"
    using all [THEN conjunct2, THEN conjunct2, THEN conjunct1] r by (rule mp)
  have "transports (snd (closeAllSessions example_server)) 0 = Some (after (close failing_transport))"
      "transports (snd (closeAllSessions example_server)) 1 = Some (after (close example_transport))"
    using all [THEN conjunct1, rule_format, of 0] all [THEN conjunct1, rule_format, of 1] k
    by simp_all
  then show ?thesis
    using f r e keeps_close [of failing_transport] keeps_close [of example_transport]
    by simp
qed


section \<open>The properties\<close>

text \<open>
  C1, as amended. When a write of the \<open>message\<close> event throws during \<open>send\<close> on an
  open transport, the error is caught inside \<open>sendEvent\<close>: it is handed to the
  \<open>onerror\<close> callback (when one is set and the error is an \<open>Error\<close> object), then
  \<open>close\<close> runs on the transport as the failed write left it, and nothing else
  happens: the write is not tried again, the transport ends closed, and \<open>send\<close>
  returns normally. The error does not reach the caller of \<open>send\<close>. (The hypothesis on
  \<open>onerror\<close>: the callback itself returns normally on that error.)
\<close>

theorem send_write_failure_closes_and_returns:
  assumes "\<not> closed t"
      and "sendEvent_writes ''message'' (stringify m) (response t) = (Some e, r)"
      and "\<forall>g. onerror t = Some g \<longrightarrow> g e = None"
  shows "result (send m t) = Inr ()
       \<and> after (send m t) = after (close (t\<lparr>response := r\<rparr>))
       \<and> closed (after (send m t))
       \<and> events (send m t) =
           (if onerror t \<noteq> None \<and> instanceof_Error e then [OnErrorCalled e] else [])
             @ events (close (t\<lparr>response := r\<rparr>))"
proof -
  have rep: "report_error (t\<lparr>response := r\<rparr>) e =
      (None, if onerror t \<noteq> None \<and> instanceof_Error e then [OnErrorCalled e] else [])"
    using assms(3) by (auto simp: report_error_def split: option.splits)
  obtain res t' evs where c: "close (t\<lparr>response := r\<rparr>) = (res, t', evs)"
    by (cases "close (t\<lparr>response := r\<rparr>)") auto
  have "closed t'"
    using keeps_close [of "t\<lparr>response := r\<rparr>"] c by simp
  then show ?thesis
    using assms(1,2) rep c by (simp add: send_def sendEvent.simps)
qed

text \<open>
  On \<open>broken_transport\<close> the second write of the event throws: \<open>onerror\<close> gets the
  error, the transport is closed, \<open>onclose\<close> is called, \<open>send\<close> returns normally.
\<close>

theorem send_write_failure_closes_and_returns_witness:
  "result (send (JObj [(''id'', JNum 1)]) broken_transport) = Inr ()
   \<and> closed (after (send (JObj [(''id'', JNum 1)]) broken_transport))
   \<and> events (send (JObj [(''id'', JNum 1)]) broken_transport)
       = [OnErrorCalled (JsError ''write EPIPE''), OnCloseCalled]"
  using send_write_failure_closes_and_returns
          [of broken_transport "JObj [(''id'', JNum 1)]" "JsError ''write EPIPE''"
              "snd (sendEvent_writes ''message'' (stringify (JObj [(''id'', JNum 1)])) (response broken_transport))"]
  by (simp add: broken_transport_def example_transport_def new_transport_def fresh_response_def
        setHeader_def sendEvent_writes_def response_write_def response_end_def
        close.simps sendEvent.simps report_error_def notify_close_def close_finish_def
        close_catch_def)

text \<open>
  C1 as stated fails: the write throws \<open>write EPIPE\<close>, and \<open>send\<close> does not fail with
  that error, it returns normally.
\<close>

theorem send_write_failure_counterexample:
  "\<not> closed broken_transport
   \<and> fst (sendEvent_writes ''message'' (stringify (JObj [(''id'', JNum 1)])) (response broken_transport))
       = Some (JsError ''write EPIPE'')
   \<and> result (send (JObj [(''id'', JNum 1)]) broken_transport) \<noteq> Inl (JsError ''write EPIPE'')
   \<and> result (send (JObj [(''id'', JNum 1)]) broken_transport) = Inr ()"
  by (simp add: broken_transport_def example_transport_def new_transport_def fresh_response_def
        setHeader_def sendEvent_writes_def response_write_def response_end_def send_def
        close.simps sendEvent.simps report_error_def notify_close_def close_finish_def
        close_catch_def)

text \<open>
  C2, as amended. \<open>start\<close> fails, with \<open>Transport is closed\<close> and without writing,
  when the transport is closed; that is the only state it looks at, the transport
  keeps no record of having been started. On a transport that is not closed, each
  call of \<open>start\<close> whose two writes succeed appends one \<open>endpoint\<close> event to the
  stream and returns normally. On a transport fresh from the constructor, on a
  response with nothing written yet, that event is the first thing on the stream.
\<close>

theorem start_emits_endpoint_unless_closed:
  "(closed t \<longrightarrow> start t = (Inl transport_closed_error, t, []))
   \<and> (\<not> closed t \<and> set (take 2 (faults (response t))) \<subseteq> {None} \<longrightarrow>
        start t =
          (Inr (),
           t\<lparr>response := (response t)
               \<lparr>written := written (response t) @
                  [''event: endpoint'' @ [newline],
                   ''data: '' @ stringify (JObj [(''endpoint'',
                       JStr (messageEndpoint t @ ''?sessionId='' @ sessionId t))]) @ [newline, newline]],
                faults := drop 2 (faults (response t))\<rparr>\<rparr>,
           []))
   \<and> (written res = [] \<and> set (take 2 (faults res)) \<subseteq> {None} \<longrightarrow>
        written (response (after (start (new_transport uuid ep res)))) =
          [''event: endpoint'' @ [newline],
           ''data: '' @ stringify (JObj [(''endpoint'', JStr (ep @ ''?sessionId='' @ uuid))])
             @ [newline, newline]])"
proof -
  have "written (response (after (start (new_transport uuid ep res)))) =
          [''event: endpoint'' @ [newline],
           ''data: '' @ stringify (JObj [(''endpoint'', JStr (ep @ ''?sessionId='' @ uuid))])
             @ [newline, newline]]"
    if "written res = []" "set (take 2 (faults res)) \<subseteq> {None}"
  proof -
    let ?t = "new_transport uuid ep res"
    have "\<not> closed ?t" "faults (response ?t) = faults res" "written (response ?t) = []"
      "messageEndpoint ?t = ep" "sessionId ?t = uuid"
      using that by (simp_all add: new_transport_def setHeader_def)
    then show ?thesis
      using that start_ok [of ?t] by simp
  qed
  then show ?thesis
    using start_closed [of t] start_ok [of t] by blast
qed

text \<open>
  \<open>start\<close> on the example transport writes the \<open>endpoint\<close> event; on the same
  transport after \<open>close\<close> it fails.
\<close>

theorem start_emits_endpoint_unless_closed_witness:
  "start example_transport =
     (Inr (),
      example_transport\<lparr>response := (response example_transport)
          \<lparr>written :=
             [''event: endpoint'' @ [newline],
              ''data: '' @ stringify (JObj [(''endpoint'', JStr ''/messages?sessionId=6f1c'')])
                @ [newline, newline]]\<rparr>\<rparr>,
      [])
   \<and> start (after (close example_transport))
       = (Inl (JsError ''Transport is closed''), after (close example_transport), [])"
  using start_emits_endpoint_unless_closed [of example_transport fresh_response "''6f1c''" "''/messages''"]
        start_emits_endpoint_unless_closed [of "after (close example_transport)"]
        keeps_close [of example_transport]
  by (simp add: example_transport_def new_transport_def fresh_response_def setHeader_def
        transport_closed_error_def)

text \<open>
  C2 as stated fails: a second \<open>start\<close> on an open transport returns normally and
  puts a second \<open>endpoint\<close> event on the stream.
\<close>

theorem second_start_counterexample:
  "result (calls [Start, Start] example_transport) = [Inr (), Inr ()]
   \<and> written (response (after (calls [Start, Start] example_transport))) =
       [''event: endpoint'' @ [newline],
        ''data: '' @ stringify (JObj [(''endpoint'', JStr ''/messages?sessionId=6f1c'')])
          @ [newline, newline],
        ''event: endpoint'' @ [newline],
        ''data: '' @ stringify (JObj [(''endpoint'', JStr ''/messages?sessionId=6f1c'')])
          @ [newline, newline]]"
  by (simp add: example_transport_def new_transport_def fresh_response_def setHeader_def
        start_def sendEvent.simps sendEvent_writes_def response_write_def)

text \<open>
  C3, as amended. \<open>close\<close> is idempotent, and total as far as the sink goes. Any
  number of calls of \<open>close\<close> in a row, one at least, leaves the transport (the sink
  included) and the trace of callbacks as the first call alone does, and every call
  after the first returns normally. No failure of the sink, when the \<open>close\<close> event
  is written or when the response is ended, reaches the caller: an error that the
  first call raises is one that a callback of the owner (\<open>onerror\<close>, \<open>onclose\<close>) has
  thrown. So the first call returns normally too, whatever the sink does, as long as
  these callbacks, where set, return normally themselves.
\<close>

theorem close_idempotent_and_total:
  "calls (replicate (Suc n) Close) t
     = (result (close t) # replicate n (Inr ()), after (close t), events (close t))
   \<and> (\<forall>e. result (close t) = Inl e \<longrightarrow>
         (\<exists>g x. onerror t = Some g \<and> g x = Some e) \<or>
         (\<exists>h. onclose t = Some h \<and> close_outcome h = Some e))
   \<and> ((\<forall>g e. onerror t = Some g \<longrightarrow> g e = None) \<and>
      (\<forall>h. onclose t = Some h \<longrightarrow> close_outcome h = None)
      \<longrightarrow> result (close t) = Inr ())"
proof -
  obtain res t1 evs where c: "close t = (res, t1, evs)"
    by (cases "close t") auto
  have "closed t1"
    using keeps_close [of t] c by simp
  then have "calls (replicate n Close) t1 = (replicate n (Inr ()), t1, [])"
    by (rule calls_Close_closed)
  with c have "calls (replicate (Suc n) Close) t
     = (result (close t) # replicate n (Inr ()), after (close t), events (close t))"
    by simp
  then show ?thesis
    using close_total [of t] close_error_origin [of t] by blast
qed

text \<open>
  On \<open>broken_transport\<close> the second write of the \<open>close\<close> event throws; \<open>close\<close>
  returns normally all the same, and two more calls change nothing.
\<close>

theorem close_idempotent_and_total_witness:
  "result (close broken_transport) = Inr ()
   \<and> calls [Close, Close, Close] broken_transport
       = ([Inr (), Inr (), Inr ()], after (close broken_transport), events (close broken_transport))"
  using close_idempotent_and_total [of 2 broken_transport]
  by (simp add: broken_transport_def example_transport_def new_transport_def numeral_2_eq_2)

text \<open>
  C3 as stated fails: \<open>close\<close> calls \<open>onclose\<close> (and, in its \<open>catch\<close>, \<open>onerror\<close>)
  unguarded, so an error thrown by the callback is raised to the caller of \<open>close\<close>.
\<close>

theorem close_raises_callback_error_counterexample:
  "\<not> closed failing_transport
   \<and> onclose failing_transport = Some (CloseHandler (Some (JsError ''cleanup failed'')))
   \<and> result (close failing_transport) = Inl (JsError ''cleanup failed'')"
  by (simp add: failing_transport_def new_transport_def fresh_response_def setHeader_def
        close.simps sendEvent.simps sendEvent_writes_def response_write_def response_end_def
        report_error_def notify_close_def close_finish_def close_catch_def)

text \<open>
  C4. Once the close sequence of a transport has run, by \<open>close\<close> or by the close
  signal of the connection, \<open>send\<close> and \<open>handlePostMessage\<close> fail with the error
  \<open>Transport is closed\<close> and change nothing, and they go on failing after any further
  calls on that transport.
\<close>

theorem closed_transport_rejects:
  assumes "t' = after (close t) \<or> t' = after (on_response_close t)"
  shows "send m t' = (Inl transport_closed_error, t', [])
       \<and> handlePostMessage m t' = (Inl transport_closed_error, None, t', [])
       \<and> result (send m (after (calls cs t'))) = Inl transport_closed_error
       \<and> fst (handlePostMessage m (after (calls cs t'))) = Inl transport_closed_error"
proof -
  from assms have c: "closed t'"
    using keeps_close [of t] keeps_on_response_close [of t] by auto
  then have "closed (after (calls cs t'))"
    by (rule closed_calls)
  with c show ?thesis
    by (simp add: send_closed handlePostMessage_closed)
qed

theorem closed_transport_rejects_witness:
  "send (JObj [(''id'', JNum 1)]) (after (close broken_transport))
     = (Inl (JsError ''Transport is closed''), after (close broken_transport), [])
   \<and> fst (handlePostMessage JNull (after (calls [Start, Close] (after (close broken_transport)))))
     = Inl (JsError ''Transport is closed'')"
  using closed_transport_rejects [of "after (close broken_transport)" broken_transport
          "JObj [(''id'', JNum 1)]" "[Start, Close]"]
        closed_transport_rejects [of "after (close broken_transport)" broken_transport
          JNull "[Start, Close]"]
  by (simp add: transport_closed_error_def)

text \<open>
  C5, as amended. The close signal of the connection runs a shorter sequence than
  \<open>close\<close>: on an open transport it sets the \<open>closed\<close> flag and calls \<open>onclose\<close>,
  and it writes no \<open>close\<close> event and does not end the response. Whichever of
  \<open>close\<close> and the close signal comes first runs its sequence; every \<open>close\<close> and
  every close signal after it returns normally and changes nothing, in any order and
  number. So \<open>onclose\<close> is called at most once per transport, and exactly once when
  the transport was open, the callback is set, and \<open>onerror\<close> returns normally.
\<close>

theorem close_steps_run_once:
  assumes "c \<in> {Close, ResponseClosed}" and "set cs \<subseteq> {Close, ResponseClosed}"
  shows "calls (c # cs) t
           = (result (call c t) # replicate (length cs) (Inr ()), after (call c t), events (call c t))
       \<and> (\<not> closed t \<longrightarrow>
            on_response_close t =
              ((case onclose t of
                  None \<Rightarrow> Inr ()
                | Some h \<Rightarrow> (case close_outcome h of None \<Rightarrow> Inr () | Some e \<Rightarrow> Inl e)),
               t\<lparr>closed := True\<rparr>,
               (case onclose t of None \<Rightarrow> [] | Some h \<Rightarrow> [OnCloseCalled])))
       \<and> count_list (events (calls (c # cs) t)) OnCloseCalled \<le> 1
       \<and> (\<not> closed t \<and> onclose t \<noteq> None \<and> (\<forall>g x. onerror t = Some g \<longrightarrow> g x = None) \<longrightarrow>
            count_list (events (calls (c # cs) t)) OnCloseCalled = 1)"
proof -
  obtain res t1 evs where c: "call c t = (res, t1, evs)"
    by (cases "call c t") auto
  have "closed t1"
    using assms(1) keeps_close [of t] keeps_on_response_close [of t] c by auto
  then have "calls cs t1 = (replicate (length cs) (Inr ()), t1, [])"
    using assms(2) by (rule calls_closing_closed)
  with c have run: "calls (c # cs) t
           = (result (call c t) # replicate (length cs) (Inr ()), after (call c t), events (call c t))"
    by simp
  have le: "count_list (events (call c t)) OnCloseCalled \<le> 1"
    using assms(1) close_count_le [of t]
    by (cases "closed t") (auto simp: on_response_close_closed on_response_close_open split: option.splits)
  have once: "count_list (events (call c t)) OnCloseCalled = 1"
    if "\<not> closed t" "onclose t \<noteq> None" "\<forall>g x. onerror t = Some g \<longrightarrow> g x = None"
    using assms(1) that close_count [of t]
    by (auto simp: on_response_close_open split: option.splits)
  show ?thesis
    using run le once on_response_close_open [of t] by simp
qed

text \<open>
  Close signal, then \<open>close\<close>, on the example transport: only the flag changes and
  \<open>onclose\<close> is called once. \<open>close\<close>, close signal, \<open>close\<close> on the transport
  whose write fails: \<open>onclose\<close> is called once.
\<close>

theorem close_steps_run_once_witness:
  "calls [ResponseClosed, Close] example_transport
     = ([Inr (), Inr ()], example_transport\<lparr>closed := True\<rparr>, [OnCloseCalled])
   \<and> count_list (events (calls [Close, ResponseClosed, Close] broken_transport)) OnCloseCalled = 1"
proof -
  have b: "\<not> closed broken_transport" "onclose broken_transport \<noteq> None"
      "\<forall>g x. onerror broken_transport = Some g \<longrightarrow> g x = None"
    by (simp_all add: broken_transport_def example_transport_def new_transport_def)
  have e: "\<not> closed example_transport" "onclose example_transport = Some RouterCleanup"
    by (simp_all add: example_transport_def new_transport_def)
  have h1: "Close \<in> {Close, ResponseClosed}" "set [ResponseClosed, Close] \<subseteq> {Close, ResponseClosed}"
    by simp_all
  have h2: "ResponseClosed \<in> {Close, ResponseClosed}" "set [Close] \<subseteq> {Close, ResponseClosed}"
    by simp_all
  have "count_list (events (calls [Close, ResponseClosed, Close] broken_transport)) OnCloseCalled = 1"
    using close_steps_run_once [OF h1, of broken_transport] b by blast
  moreover have "calls [ResponseClosed, Close] example_transport
     = ([Inr (), Inr ()], example_transport\<lparr>closed := True\<rparr>, [OnCloseCalled])"
    using close_steps_run_once [OF h2, of example_transport] e by (simp del: calls.simps)
  ultimately show ?thesis by simp
qed

text \<open>
  C5 as stated fails: the close signal does not run the sequence of \<open>close\<close>. After
  it nothing is written and the response is not ended; after \<open>close\<close> the \<open>close\<close>
  event is on the stream and the response is ended.
\<close>

theorem disconnect_is_not_close_counterexample:
  "written (response (after (on_response_close example_transport))) = []
   \<and> \<not> ended (response (after (on_response_close example_transport)))
   \<and> written (response (after (close example_transport)))
       = [''event: close'' @ [newline], ''data: '' @ stringify close_payload @ [newline, newline]]
   \<and> ended (response (after (close example_transport)))
   \<and> after (on_response_close example_transport) \<noteq> after (close example_transport)"
  by (simp add: example_transport_def new_transport_def fresh_response_def setHeader_def
        on_response_close_def notify_close_def close.simps sendEvent.simps sendEvent_writes_def
        response_write_def response_end_def close_finish_def)

text \<open>
  C6. \<open>closeAllSessions\<close> is to swallow the failure of every single \<open>close\<close> and
  to leave the table empty. It does so (\<open>closeAllSessions_effect\<close>) except where a
  \<open>close\<close> is rejected with \<open>null\<close> or \<open>undefined\<close>: the handler given to \<open>catch\<close>
  reads \<open>err.message\<close>, which throws on such a value, so the rejection is not
  swallowed. In \<open>null_server\<close> the \<open>onclose\<close> callback of the first transport throws
  \<open>null\<close>. Both transports are closed, but \<open>closeAllSessions\<close> itself fails with
  the \<open>TypeError\<close> of the handler, the table is not cleared, and the entry of the
  first transport stays in it (that of the second was removed by its own \<open>onclose\<close>
  callback).
\<close>

theorem closeAllSessions_null_rejection:
  "result (close null_thrower) = Inl JsNullish
   \<and> fst (closeAllSessions null_server) = Inl catch_handler_error
   \<and> sessions (snd (closeAllSessions null_server)) = [(''c3d2'', 0)]
   \<and> transports (snd (closeAllSessions null_server)) 0 = Some (after (close null_thrower))
   \<and> transports (snd (closeAllSessions null_server)) 1 = Some (after (close example_transport))
   \<and> closed (after (close null_thrower)) \<and> closed (after (close example_transport))"
proof -
  have n: "close null_thrower =
      (Inl JsNullish,
       null_thrower\<lparr>closed := True,
         response := (response null_thrower)
           \<lparr>written := [''event: close'' @ [newline],
                          ''data: '' @ stringify close_payload @ [newline, newline]],
            ended := True\<rparr>\<rparr>,
       [OnCloseCalled])"
    by (simp add: null_thrower_def new_transport_def fresh_response_def setHeader_def
          close.simps sendEvent.simps sendEvent_writes_def response_write_def response_end_def
          notify_close_def close_finish_def)
  have e: "close example_transport =
      (Inr (),
       example_transport\<lparr>closed := True,
         response := (response example_transport)
           \<lparr>written := [''event: close'' @ [newline],
                          ''data: '' @ stringify close_payload @ [newline, newline]],
            ended := True\<rparr>\<rparr>,
       [OnCloseCalled])"
    by (simp add: example_transport_def new_transport_def fresh_response_def setHeader_def
          close.simps sendEvent.simps sendEvent_writes_def response_write_def response_end_def
          notify_close_def close_finish_def)
  have i: "sessionId null_thrower = ''c3d2''" "onclose null_thrower = Some (CloseHandler (Some JsNullish))"
      "sessionId example_transport = ''6f1c''" "onclose example_transport = Some RouterCleanup"
    by (simp_all add: null_thrower_def example_transport_def new_transport_def)
  have c0: "close_transport 0 null_server =
      (Inl catch_handler_error,
       null_server\<lparr>transports := (transports null_server)(0 \<mapsto> after (close null_thrower)),
                    trace := [OnCloseCalled]\<rparr>)"
    using n i by (simp add: close_transport_def null_server_def run_callbacks_def)
  have r: "fst (closeAllSessions null_server) = Inl catch_handler_error
      \<and> sessions (snd (closeAllSessions null_server)) = [(''c3d2'', 0)]"
    using c0 n e i
    by (simp add: closeAllSessions_def close_transport_def null_server_def run_callbacks_def
          removeSession_def map_delete_def)
  have k: "snd ` set (sessions null_server) = {0, 1}"
      "transports null_server 0 = Some null_thrower"
      "transports null_server 1 = Some example_transport"
    by (auto simp: null_server_def)
  have t: "transports (snd (closeAllSessions null_server)) 0 = Some (after (close null_thrower))"
      "transports (snd (closeAllSessions null_server)) 1 = Some (after (close example_transport))"
    using closeAllSessions_effect [of null_server, THEN conjunct1, rule_format, of 0]
          closeAllSessions_effect [of null_server, THEN conjunct1, rule_format, of 1] k
    by simp_all
  show ?thesis
    using n r t keeps_close [of null_thrower] keeps_close [of example_transport]
    by simp
qed




text \<open>
  C8, as amended. \<open>registerSession\<close> stores the transport under its session id and
  changes nothing else: looking that id up gives the transport just registered, every
  other id is looked up as before, and the table keeps at most one entry per id. When
  the id is already present its entry is replaced by the new transport, without any
  sign of the collision (the count of sessions stays the same); when it is absent the
  table grows by one entry.
\<close>

theorem registerSession_replaces:
  assumes "transports s ref = Some t"
  shows "getSession (sessionId t) (registerSession ref s) = Some ref
       \<and> (\<forall>sid. sid \<noteq> sessionId t \<longrightarrow> getSession sid (registerSession ref s) = getSession sid s)
       \<and> (distinct (map fst (sessions s)) \<longrightarrow> distinct (map fst (sessions (registerSession ref s))))
       \<and> sessionCount (registerSession ref s) =
           (if getSession (sessionId t) s = None then sessionCount s + 1 else sessionCount s)
       \<and> transports (registerSession ref s) = transports s
       \<and> trace (registerSession ref s) = trace s"
proof -
  have r: "registerSession ref s = s\<lparr>sessions := map_set (sessionId t) ref (sessions s)\<rparr>"
    using assms by (simp add: registerSession_def)
  show ?thesis
    by (simp add: r getSession_def map_get_map_set sessionCount_def length_map_set distinct_map_set)
qed

text \<open>
  Registering the first transport of \<open>colliding_server\<close> in the empty table, and
  then the second, which has the same session id: the entry of the first is
  replaced, and the table still has one entry.
\<close>

theorem registerSession_replaces_witness:
  "getSession ''6f1c'' (registerSession 0 colliding_server) = Some 0
   \<and> sessionCount (registerSession 0 colliding_server) = 1
   \<and> getSession ''6f1c'' (registerSession 1 (registerSession 0 colliding_server)) = Some 1
   \<and> sessionCount (registerSession 1 (registerSession 0 colliding_server)) = 1
   \<and> transports (registerSession 1 (registerSession 0 colliding_server))
       = transports (registerSession 0 colliding_server)"
proof -
  have h0: "transports colliding_server 0 = Some example_transport"
    by (simp add: colliding_server_def)
  have i: "sessionId example_transport = ''6f1c''" "sessionId broken_transport = ''6f1c''"
    by (simp_all add: broken_transport_def example_transport_def new_transport_def)
  have e: "getSession ''6f1c'' colliding_server = None" "sessionCount colliding_server = 0"
    by (simp_all add: colliding_server_def getSession_def map_get_def sessionCount_def)
  note first = registerSession_replaces [OF h0]
  have f: "getSession ''6f1c'' (registerSession 0 colliding_server) = Some 0"
      "sessionCount (registerSession 0 colliding_server) = 1"
      "transports (registerSession 0 colliding_server) = transports colliding_server"
    using first i(1) e by simp_all
  have h1: "transports (registerSession 0 colliding_server) 1 = Some broken_transport"
    using f(3) by (simp add: colliding_server_def)
  note second = registerSession_replaces [OF h1]
  have "getSession ''6f1c'' (registerSession 1 (registerSession 0 colliding_server)) = Some 1"
      "sessionCount (registerSession 1 (registerSession 0 colliding_server)) = 1"
      "transports (registerSession 1 (registerSession 0 colliding_server))
         = transports (registerSession 0 colliding_server)"
    using second i(2) f(1,2) by simp_all
  then show ?thesis
    using f(1,2) by simp
qed

text \<open>
  C8 as stated fails: a second transport with the session id of a registered one
  takes over the entry. Nothing but the entry changes, both transports are open, and
  the first can no longer be found.
\<close>

theorem registerSession_overwrites_counterexample:
  "getSession ''6f1c'' (registerSession 0 colliding_server) = Some 0
   \<and> getSession ''6f1c'' (registerSession 1 (registerSession 0 colliding_server)) = Some 1
   \<and> sessions (registerSession 1 (registerSession 0 colliding_server)) = [(''6f1c'', 1)]
   \<and> trace (registerSession 1 (registerSession 0 colliding_server)) = trace (registerSession 0 colliding_server)
   \<and> transports (registerSession 1 (registerSession 0 colliding_server)) 0 = Some example_transport
   \<and> transports (registerSession 1 (registerSession 0 colliding_server)) 1 = Some broken_transport
   \<and> sessionId example_transport = sessionId broken_transport
   \<and> \<not> closed example_transport \<and> \<not> closed broken_transport"
  by (simp add: colliding_server_def registerSession_def getSession_def map_get_def
        example_transport_def broken_transport_def new_transport_def)



text \<open>
  C10, as amended. When \<open>onmessage\<close> throws during \<open>handlePostMessage\<close> on an open
  transport, the error is caught: the reply on the POST is status 500 with the JSON
  body carrying error code -32000, \<open>handlePostMessage\<close> returns normally, and the
  transport is unchanged, open as before. \<open>onerror\<close> is called with the thrown value
  only when the callback is set and the value is an \<open>Error\<close> object; a thrown value
  of another kind is not reported to it. A later \<open>send\<close> on the transport returns
  normally (and writes its \<open>message\<close> event when the writes succeed), and a later
  \<open>handlePostMessage\<close> returns normally, with the acknowledgement when \<open>onmessage\<close>
  does not throw on that message. (The hypothesis on \<open>onerror\<close>: the callback itself
  returns normally.)
\<close>

theorem onmessage_failure_is_contained:
  assumes "\<not> closed t" and "onmessage t = Some h" and "h m = Some e"
      and "\<forall>g x. onerror t = Some g \<longrightarrow> g x = None"
  shows "handlePostMessage m t =
           (Inr (), Some server_error_reply, t,
            OnMessageCalled m #
              (if onerror t \<noteq> None \<and> instanceof_Error e then [OnErrorCalled e] else []))
       \<and> server_error_reply =
           \<lparr> status = 500,
             body = JsonBody (JObj [(''error'',
                      JObj [(''code'', JNum (- 32000)), (''message'', JStr ''Server error'')])]) \<rparr>
       \<and> result (send m' t) = Inr ()
       \<and> (set (take 2 (faults (response t))) \<subseteq> {None} \<longrightarrow>
            written (response (after (send m' t))) =
              written (response t) @
                [''event: message'' @ [newline], ''data: '' @ stringify m' @ [newline, newline]])
       \<and> fst (handlePostMessage m' t) = Inr ()
       \<and> (h m' = None \<longrightarrow>
            handlePostMessage m' t = (Inr (), Some ack_reply, t, [OnMessageCalled m']))"
proof -
  have "report_error t e =
      (None, if onerror t \<noteq> None \<and> instanceof_Error e then [OnErrorCalled e] else [])"
    using assms(4) by (rule report_error_returns)
  then have "handlePostMessage m t =
           (Inr (), Some server_error_reply, t,
            OnMessageCalled m #
              (if onerror t \<noteq> None \<and> instanceof_Error e then [OnErrorCalled e] else []))"
    using assms(1-3) by (simp add: handlePostMessage_def)
  moreover have "h m' = None \<longrightarrow>
            handlePostMessage m' t = (Inr (), Some ack_reply, t, [OnMessageCalled m'])"
    using assms(1,2) handlePostMessage_ack [of t m'] by simp
  ultimately show ?thesis
    using assms(1,4) send_total [of t m'] handlePostMessage_total [of t m'] send_ok [of t m']
    by (simp add: server_error_reply_def)
qed

text \<open>
  \<open>onmessage\<close> throws an \<open>Error\<close> object: reply 500, \<open>onerror\<close> called with it, the
  transport unchanged, and a \<open>send\<close> after it returns normally.
\<close>

theorem onmessage_failure_is_contained_witness:
  "handlePostMessage (JObj [(''method'', JStr ''ping'')])
       error_thrower
     = (Inr (), Some server_error_reply,
        error_thrower,
        [OnMessageCalled (JObj [(''method'', JStr ''ping'')]), OnErrorCalled (JsError ''handler failed'')])
   \<and> result (send JNull error_thrower)
     = Inr ()"
  using onmessage_failure_is_contained
          [of "error_thrower"
              "\<lambda>m. Some (JsError ''handler failed'')" "JObj [(''method'', JStr ''ping'')]"
              "JsError ''handler failed''" JNull]
  by (simp add: error_thrower_def example_transport_def new_transport_def)

text \<open>
  C10 as stated fails: \<open>onmessage\<close> throws a value that is no \<open>Error\<close> object,
  \<open>onerror\<close> is set, and \<open>onerror\<close> is not called.
\<close>

theorem onerror_not_called_counterexample:
  "\<not> closed string_thrower
   \<and> onerror string_thrower \<noteq> None
   \<and> snd (snd (snd (handlePostMessage JNull
        string_thrower)))
       = [OnMessageCalled JNull]"
  by (simp add: string_thrower_def example_transport_def new_transport_def handlePostMessage_def
        report_error_def)

end
